theory Spec2Isabelle
  imports Complex_Main
begin

section \<open>The comment-chain harvester of edward.py and bot.py\<close>

text \<open>
  The two source files each define \<open>reddit_training\<close>: edward.py (the filtering
  harvester) and bot.py (an earlier, unfiltered one). Both are embedded here. Python
  strings are modelled as \<open>string\<close>, one \<open>char\<close> standing for one character of the
  text, so that \<open>length\<close> is Python's \<open>len\<close>.
\<close>

subsection \<open>Exceptions\<close>

text \<open>
  The exception classes the code names or can meet. \<open>APIException\<close> and
  \<open>ClientException\<close> are the two subclasses of \<open>PRAWException\<close>; the constructor
  \<open>PRAWException\<close> stands for any other instance of that base class. Each carries
  the text that \<open>'%s' % exc\<close> gives. \<open>SystemExit\<close> is what \<open>sys.exit\<close>
  raises. \<open>AttributeError\<close> is raised by an attribute access on \<open>None\<close>,
  \<open>UnboundLocalError\<close> by reading a local that was never assigned.
  \<open>OtherException\<close> is an exception of any other class: one that is neither an
  \<open>AssertionError\<close> nor derived from \<open>praw.exceptions.PRAWException\<close>, such as
  a failure of the HTTP layer under praw or of the bot's database driver.
\<close>

datatype exc =
    APIException string
  | ClientException string
  | PRAWException string
  | AssertionError string
  | SystemExit int
  | AttributeError
  | UnboundLocalError
  | OtherException string

subsection \<open>Observable effects\<close>

datatype level = DEBUG | INFO | WARNING | ERROR

datatype arg = Str string | Num int | Bool bool | Lst "string list" | Exn exc | NoneArg

datatype call =
    ChatBot_ctor string string string string
  | Praw_Reddit string string string string
  | Hot string int

text \<open>
  Everything the harvester does to the outside is an event, appended to a trace in
  program order: a logging call (level, format string, arguments), a \<open>sleep\<close> with
  its duration in seconds, a \<open>bot.train\<close> call with the list handed to it, and the
  calls that leave the program for a service: the construction of the bot (with its name,
  storage adapter, database and database URI), the construction of the content-source
  client (with the four credentials) and the request of the thread listing.
\<close>

datatype event =
    Log level string "arg list"
  | Sleep rat
  | Train "string list"
  | Call call

text \<open>A computation returns a value or raises, and leaves the trace extended.\<close>

type_synonym 'a result = "(exc + 'a) \<times> event list"

fun trained :: "event list \<Rightarrow> string list list" where
  "trained [] = []"
| "trained (Train s # tr) = s # trained tr"
| "trained (ev # tr) = trained tr"

fun sleeps :: "event list \<Rightarrow> rat list" where
  "sleeps [] = []"
| "sleeps (Sleep d # tr) = d # sleeps tr"
| "sleeps (ev # tr) = sleeps tr"

fun logged :: "event list \<Rightarrow> (level \<times> string \<times> arg list) list" where
  "logged [] = []"
| "logged (Log l f as # tr) = (l, f, as) # logged tr"
| "logged (ev # tr) = logged tr"

fun calls :: "event list \<Rightarrow> call list" where
  "calls [] = []"
| "calls (Call c # tr) = c # calls tr"
| "calls (ev # tr) = calls tr"

subsection \<open>The content source\<close>

text \<open>
  The objects praw hands to the code. An access that praw may answer lazily from the
  network can raise, so it is a value of \<open>exc + 'a\<close>: a comment's \<open>body\<close>, a
  redditor's \<open>link_karma\<close>, and the pair \<open>comments.replace_more(limit=0)\<close>,
  \<open>comments.list()\<close>, whose result \<open>comments_list\<close> is the flattened reply tree
  of the thread (every comment of the thread, at any depth, in praw's order).
\<close>

datatype comment = Comment (body: "exc + string") (replies: "comment list")

record redditor =
  name :: string
  link_karma :: "exc + int"

record submission =
  title :: string
  score :: int
  ident :: string
  url :: string
  author :: "redditor option"
  comments_list :: "exc + comment list"

record reddit =
  read_only :: bool
  hot :: "string \<Rightarrow> int \<Rightarrow> submission list"

subsection \<open>String helpers of Python\<close>

text \<open>\<open>s.strip(chars)\<close>: drop the characters of \<open>chars\<close> from both ends.\<close>

definition strip :: "string \<Rightarrow> string \<Rightarrow> string" where
  "strip chars s =
     rev (dropWhile (\<lambda>c. c \<in> set chars) (rev (dropWhile (\<lambda>c. c \<in> set chars) s)))"

fun starts_with :: "string \<Rightarrow> string \<Rightarrow> bool" where
  "starts_with [] s = True"
| "starts_with (p # ps) [] = False"
| "starts_with (p # ps) (c # cs) = (p = c \<and> starts_with ps cs)"

text \<open>\<open>p in s\<close> on strings: \<open>p\<close> occurs in \<open>s\<close> as a contiguous block.\<close>

fun contains :: "string \<Rightarrow> string \<Rightarrow> bool" where
  "contains p [] = starts_with p []"
| "contains p (c # cs) = (starts_with p (c # cs) \<or> contains p cs)"

subsection \<open>Credentials (edward.py 154-214, bot.py 134-178)\<close>

text \<open>The remediation message \<open>"export VAR=''"\<close>.\<close>

definition export_hint :: "string \<Rightarrow> string" where
  "export_hint var = ''export '' @ var @ ''='' @ [CHR 0x27, CHR 0x27]"

definition get_reddit_envars ::
  "(string \<rightharpoonup> string) \<Rightarrow> event list \<Rightarrow> (string \<times> string \<times> string \<times> string) result" where
  "get_reddit_envars environ tr =
     (case environ ''REDDIT_CLIENT_ID'' of
        None \<Rightarrow> (Inl (SystemExit 1), tr @ [Log ERROR (export_hint ''REDDIT_CLIENT_ID'') []])
      | Some client_id \<Rightarrow>
     (case environ ''REDDIT_CLIENT_SECRET'' of
        None \<Rightarrow> (Inl (SystemExit 1), tr @ [Log ERROR (export_hint ''REDDIT_CLIENT_SECRET'') []])
      | Some client_secret \<Rightarrow>
     (case environ ''REDDIT_USERNAME'' of
        None \<Rightarrow> (Inl (SystemExit 1), tr @ [Log ERROR (export_hint ''REDDIT_USERNAME'') []])
      | Some username \<Rightarrow>
     (case environ ''REDDIT_PASSWORD'' of
        None \<Rightarrow> (Inl (SystemExit 1), tr @ [Log ERROR (export_hint ''REDDIT_PASSWORD'') []])
      | Some password \<Rightarrow>
          (Inr (client_id, client_secret, username, password), tr)))))"


text \<open>\<open>get_reddit\<close> of bot.py: the same without the \<open>try\<close>.\<close>

definition bot_get_reddit ::
  "(string \<rightharpoonup> string) \<Rightarrow> (string \<Rightarrow> string \<Rightarrow> string \<Rightarrow> string \<Rightarrow> exc + reddit) \<Rightarrow>
   event list \<Rightarrow> reddit result" where
  "bot_get_reddit environ praw_Reddit tr =
     (case get_reddit_envars environ tr of
        (Inl e, tr1) \<Rightarrow> (Inl e, tr1)
      | (Inr (client_id, client_secret, username, password), tr1) \<Rightarrow>
          (let tr2 = tr1 @ [Log DEBUG ''%s'' [Str client_id], Log DEBUG ''%s'' [Str client_secret],
                            Log DEBUG ''%s'' [Str username], Log DEBUG ''%s'' [Str password],
                            Call (Praw_Reddit client_id client_secret username password)]
           in case praw_Reddit client_id client_secret username password of
                Inr r \<Rightarrow> (Inr r, tr2)
              | Inl e \<Rightarrow> (Inl e, tr2)))"

subsection \<open>The bot (edward.py 232-265, bot.py 192-222)\<close>


definition bot_chat_bot :: "(exc + unit) \<Rightarrow> event list \<Rightarrow> unit result" where
  "bot_chat_bot ChatBot tr =
     (ChatBot,
      tr @ [Call (ChatBot_ctor ''Useless Bot'' ''chatterbot.storage.MongoDatabaseAdapter''
                    ''bot_db'' ''mongodb://mongo:27017/'')])"

subsection \<open>The \<open>except\<close> clauses (edward.py 395-408, bot.py 296-309)\<close>

text \<open>
  The same four clauses close the \<open>try\<close> in both files. An exception that no clause
  matches propagates out of the loop.
\<close>

fun except_clauses :: "exc \<Rightarrow> event list \<Rightarrow> unit result" where
  "except_clauses (APIException m) tr =
     (Inr (), tr @ [Log ERROR ''APIException: %s'' [Exn (APIException m)]])"
| "except_clauses (ClientException m) tr =
     (Inr (), tr @ [Log ERROR ''ClientException: %s'' [Exn (ClientException m)]])"
| "except_clauses (PRAWException m) tr =
     (Inr (), tr @ [Log ERROR ''PRAWException: %s'' [Exn (PRAWException m)]])"
| "except_clauses (AssertionError m) tr =
     (if contains ''429'' m
      then (Inr (), tr @ [Log WARNING ''Exceeding rate limits: %s'' [Exn (AssertionError m)],
                          Log WARNING ''sleeping for 60 seconds'' [], Sleep 60])
      else (Inr (), tr))"
| "except_clauses e tr = (Inl e, tr)"

subsection \<open>\<open>reddit_training\<close> of edward.py (302-408)\<close>

text \<open>\<open>slp = 0.1\<close>.\<close>

definition slp :: rat where
  "slp = 1 / 10"

text \<open>The inner loop over \<open>comment.replies\<close> (lines 377-384).\<close>

fun reply_loop :: "comment list \<Rightarrow> string list \<Rightarrow> event list \<Rightarrow> (string list) result" where
  "reply_loop [] sub_comments tr = (Inr sub_comments, tr)"
| "reply_loop (rep # reps) sub_comments tr =
     (case body rep of
        Inl e \<Rightarrow> (Inl e, tr)
      | Inr b \<Rightarrow>
          (let reply = strip ''^'' (strip ''/r/'' b) in
           if length reply < 80 then
             (if \<not> reply = ''[removed]'' then
                reply_loop reps (sub_comments @ [reply])
                  (tr @ [Log DEBUG ''Appending reply: %s'' [Str reply]])
              else reply_loop reps sub_comments tr)
           else reply_loop reps sub_comments (tr @ [Log DEBUG ''Reply is too long'' []])))"

text \<open>The body of the loop over \<open>comments_list\<close> (lines 373-393).\<close>

definition comment_body :: "comment \<Rightarrow> event list \<Rightarrow> unit result" where
  "comment_body c tr =
     (let tr1 = tr @ [Sleep slp] in
      case body c of
        Inl e \<Rightarrow> (Inl e, tr1)
      | Inr b \<Rightarrow>
          (case reply_loop (replies c) [b] tr1 of
             (Inl e, tr2) \<Rightarrow> (Inl e, tr2)
           | (Inr sub_comments, tr2) \<Rightarrow>
               (if length sub_comments < 5
                then (Inr (), tr2 @ [Log DEBUG ''Skipping: %s'' [Lst sub_comments]])
                else (Inr (),
                      tr2 @ [Log DEBUG ''Comment is %s statements long''
                               [Num (int (length sub_comments))],
                             Train sub_comments,
                             Log INFO ''Training: %s'' [Lst sub_comments],
                             Log INFO ''--------------------------------------------'' []]))))"

fun comment_loop :: "comment list \<Rightarrow> event list \<Rightarrow> unit result" where
  "comment_loop [] tr = (Inr (), tr)"
| "comment_loop (c # cs) tr =
     (case comment_body c tr of
        (Inl e, tr1) \<Rightarrow> (Inl e, tr1)
      | (Inr u, tr1) \<Rightarrow> comment_loop cs tr1)"

text \<open>The \<open>try\<close> block for one submission (lines 358-393).\<close>

definition try_body :: "submission \<Rightarrow> event list \<Rightarrow> unit result" where
  "try_body sm tr =
     (let tr1 = tr @ [Log DEBUG ''Title: %s'' [Str (title sm)],
                      Log DEBUG ''Score: %s'' [Num (score sm)],
                      Log DEBUG ''ID: %s'' [Str (ident sm)],
                      Log DEBUG ''URL: %s'' [Str (url sm)]]
      in case author sm of
           None \<Rightarrow> (Inr (), tr1)
         | Some a \<Rightarrow>
             (let tr2 = tr1 @ [Log DEBUG ''Author: %s'' [Str (name a)]] in
              case link_karma a of
                Inl e \<Rightarrow> (Inl e, tr2)
              | Inr k \<Rightarrow>
                  (let tr3 = tr2 @ [Log DEBUG ''Link karma: %s'' [Num k]] in
                   case comments_list sm of
                     Inl e \<Rightarrow> (Inl e, tr3)
                   | Inr cl \<Rightarrow> comment_loop cl tr3)))"

text \<open>The loop over the listing: \<open>try\<close>, then the \<open>except\<close> clauses (lines 355-408).\<close>

fun submission_loop :: "submission list \<Rightarrow> event list \<Rightarrow> unit result" where
  "submission_loop [] tr = (Inr (), tr)"
| "submission_loop (sm # sms) tr =
     (case try_body sm tr of
        (Inr u, tr1) \<Rightarrow> submission_loop sms tr1
      | (Inl e, tr1) \<Rightarrow>
          (case except_clauses e tr1 of
             (Inl e', tr2) \<Rightarrow> (Inl e', tr2)
           | (Inr u, tr2) \<Rightarrow> submission_loop sms tr2))"



subsection \<open>\<open>reddit_training\<close> of bot.py (256-309)\<close>

text \<open>\<open>get_sub_comments\<close> (the same in both files): the body, then every child's body.\<close>

fun child_loop :: "comment list \<Rightarrow> string list \<Rightarrow> exc + string list" where
  "child_loop [] sub_comments = Inr sub_comments"
| "child_loop (child # children) sub_comments =
     (case body child of
        Inl e \<Rightarrow> Inl e
      | Inr b \<Rightarrow> child_loop children (sub_comments @ [b]))"

definition get_sub_comments :: "comment \<Rightarrow> exc + string list" where
  "get_sub_comments c =
     (case body c of Inl e \<Rightarrow> Inl e | Inr b \<Rightarrow> child_loop (replies c) [b])"

fun bot_comment_loop :: "comment list \<Rightarrow> event list \<Rightarrow> unit result" where
  "bot_comment_loop [] tr = (Inr (), tr)"
| "bot_comment_loop (c # cs) tr =
     (case get_sub_comments c of
        Inl e \<Rightarrow> (Inl e, tr)
      | Inr sub_comments \<Rightarrow>
          bot_comment_loop cs (tr @ [Log INFO ''Training: %s'' [Lst sub_comments],
                                     Train sub_comments]))"

text \<open>
  The \<open>try\<close> block of bot.py (lines 276-294). It reads \<open>submission.author.link_karma\<close>
  without testing \<open>submission.author\<close>.
\<close>

definition bot_try_body :: "submission \<Rightarrow> event list \<Rightarrow> unit result" where
  "bot_try_body sm tr =
     (let tr1 = tr @ [Log INFO ''Title: %s'' [Str (title sm)],
                      Log INFO ''Score: %s'' [Num (score sm)],
                      Log INFO ''ID: %s'' [Str (ident sm)],
                      Log INFO ''URL: %s'' [Str (url sm)],
                      Log INFO ''Author: %s''
                        [case author sm of None \<Rightarrow> NoneArg | Some a \<Rightarrow> Str (name a)]]
      in case author sm of
           None \<Rightarrow> (Inl AttributeError, tr1)
         | Some a \<Rightarrow>
             (case link_karma a of
                Inl e \<Rightarrow> (Inl e, tr1)
              | Inr k \<Rightarrow>
                  (let tr2 = tr1 @ [Log INFO ''Link karma: %s'' [Num k]] in
                   case comments_list sm of
                     Inl e \<Rightarrow> (Inl e, tr2)
                   | Inr cl \<Rightarrow>
                       (case bot_comment_loop cl tr2 of
                          (Inl e, tr3) \<Rightarrow> (Inl e, tr3)
                        | (Inr u, tr3) \<Rightarrow>
                            (Inr (),
                             tr3 @ [Log INFO
                               ''--------------------------------------------------------''
                               []])))))"

fun bot_submission_loop :: "submission list \<Rightarrow> event list \<Rightarrow> unit result" where
  "bot_submission_loop [] tr = (Inr (), tr)"
| "bot_submission_loop (sm # sms) tr =
     (case bot_try_body sm (tr @ [Sleep 3]) of
        (Inr u, tr1) \<Rightarrow> bot_submission_loop sms tr1
      | (Inl e, tr1) \<Rightarrow>
          (case except_clauses e tr1 of
             (Inl e', tr2) \<Rightarrow> (Inl e', tr2)
           | (Inr u, tr2) \<Rightarrow> bot_submission_loop sms tr2))"

definition bot_reddit_training ::
  "(string \<rightharpoonup> string) \<Rightarrow> (exc + unit) \<Rightarrow>
   (string \<Rightarrow> string \<Rightarrow> string \<Rightarrow> string \<Rightarrow> exc + reddit) \<Rightarrow>
   event list \<Rightarrow> unit result" where
  "bot_reddit_training environ ChatBot praw_Reddit tr =
     (case bot_chat_bot ChatBot tr of
        (Inl e, tr0) \<Rightarrow> (Inl e, tr0)
      | (Inr b, tr0) \<Rightarrow>
     (case bot_get_reddit environ praw_Reddit tr0 of
        (Inl e, tr1) \<Rightarrow> (Inl e, tr1)
      | (Inr r, tr1) \<Rightarrow>
          bot_submission_loop (hot r ''all'' 9)
            (tr1 @ [Log INFO ''Read only?: %s'' [Bool (read_only r)], Call (Hot ''all'' 9)])))"

subsection \<open>The notions the properties are stated in\<close>

text \<open>
  The cleaned text of a reply (line 378) and the test a cleaned reply passes to be
  appended (lines 379-380).
\<close>

abbreviation cleaned :: "string \<Rightarrow> string" where
  "cleaned b \<equiv> strip ''^'' (strip ''/r/'' b)"

abbreviation accepted :: "string \<Rightarrow> bool" where
  "accepted r \<equiv> length r < 80 \<and> r \<noteq> ''[removed]''"

text \<open>The bodies of a list of comments, when every access succeeds.\<close>

fun bodies :: "comment list \<Rightarrow> string list option" where
  "bodies [] = Some []"
| "bodies (c # cs) =
     (case body c of
        Inl e \<Rightarrow> None
      | Inr b \<Rightarrow> (case bodies cs of None \<Rightarrow> None | Some bs \<Rightarrow> Some (b # bs)))"

text \<open>The sequence built from a comment: its body, then its accepted cleaned replies.\<close>

abbreviation built_from :: "comment \<Rightarrow> string list \<Rightarrow> bool" where
  "built_from c s \<equiv>
     \<exists>b bs. body c = Inr b \<and> bodies (replies c) = Some bs \<and>
       s = b # filter accepted (map cleaned bs)"

subsection \<open>Example threads\<close>

definition leaf :: "string \<Rightarrow> comment" where
  "leaf b = Comment (Inr b) []"

definition chain :: "string \<Rightarrow> string list \<Rightarrow> comment list" where
  "chain b rs = Comment (Inr b) (map leaf rs) # map leaf rs"

definition thread_of :: "(exc + comment list) \<Rightarrow> submission" where
  "thread_of cl =
     \<lparr>title = ''t'', score = 1, ident = ''x'', url = ''u'',
      author = Some \<lparr>name = ''alice'', link_karma = Inr 1\<rparr>, comments_list = cl\<rparr>"

definition deleted_thread :: submission where
  "deleted_thread =
     \<lparr>title = ''t'', score = 1, ident = ''x'', url = ''u'',
      author = None, comments_list = Inr []\<rparr>"

definition removed_reply :: comment where
  "removed_reply = Comment (Inr ''[removed]'') (map leaf [''a'', ''b'', ''c'', ''d''])"

definition removed_parent :: comment where
  "removed_parent = Comment (Inr ''hi'') [removed_reply]"

definition limited_thread :: submission where
  "limited_thread =
     thread_of (Inr (chain ''two'' [''a'', ''b'', ''c'', ''d''] @
                     [Comment (Inl (AssertionError ''received 429 HTTP response'')) []] @
                     chain ''late'' [''a'', ''b'', ''c'', ''d'']))"

definition failing_thread :: "exc \<Rightarrow> submission" where
  "failing_thread e =
     thread_of (Inr (chain ''two'' [''a'', ''b'', ''c'', ''d''] @ [Comment (Inl e) []] @
                     chain ''late'' [''a'', ''b'', ''c'', ''d'']))"


section \<open>Properties\<close>

subsection \<open>Traces and the loops\<close>

lemmas example_defs =
  leaf_def chain_def thread_of_def

lemmas eval_defs =
  try_body_def comment_body_def strip_def slp_def Let_def

lemma bodies_Some_iff: "bodies reps = Some bs \<longleftrightarrow> map body reps = map Inr bs"
proof (induction reps arbitrary: bs)
  case Nil
  then show ?case by auto
next
  case (Cons rep reps)
  note IH = Cons.IH
  show ?case
  proof (cases "body rep")
    case (Inl e)
    then show ?thesis by (cases bs) auto
  next
    case (Inr b)
    show ?thesis
    proof (cases "bodies reps")
      case None
      with IH have "map body reps \<noteq> map Inr bs'" for bs'
        by simp
      with None Inr show ?thesis by (cases bs) auto
    next
      case (Some cs)
      with IH [of cs] have "map body reps = map Inr cs"
        by simp
      with Some Inr show ?thesis by (cases bs) auto
    qed
  qed
qed

lemma trained_append [simp]: "trained (a @ b) = trained a @ trained b"
  by (induction a rule: trained.induct) simp_all

lemma sleeps_append [simp]: "sleeps (a @ b) = sleeps a @ sleeps b"
  by (induction a rule: sleeps.induct) simp_all

lemma logged_append [simp]: "logged (a @ b) = logged a @ logged b"
  by (induction a rule: logged.induct) simp_all

lemma calls_append [simp]: "calls (a @ b) = calls a @ calls b"
  by (induction a rule: calls.induct) simp_all

lemma reply_loop_fst:
  "map body reps = map Inr bs \<Longrightarrow>
   fst (reply_loop reps acc tr) = Inr (acc @ filter accepted (map cleaned bs))"
proof (induction reps arbitrary: bs acc tr)
  case Nil
  then show ?case by simp
next
  case (Cons rep reps)
  then obtain b bs' where bs: "bs = b # bs'" "body rep = Inr b" "map body reps = map Inr bs'"
    by (cases bs) auto
  show ?case
    using Cons.IH [OF bs(3)] bs(1,2) by (simp add: Let_def)
qed

lemma reply_loop_Inr_D:
  "reply_loop reps acc tr = (Inr sc, tr') \<Longrightarrow>
   \<exists>bs. map body reps = map Inr bs \<and> sc = acc @ filter accepted (map cleaned bs)"
proof (induction reps arbitrary: acc tr)
  case Nil
  then show ?case by simp
next
  case (Cons rep reps)
  from Cons.prems obtain b where b: "body rep = Inr b"
    by (cases "body rep") auto
  let ?r = "cleaned b"
  consider (app) "length ?r < 80" "?r \<noteq> ''[removed]''"
    | (rem) "length ?r < 80" "?r = ''[removed]''"
    | (long) "\<not> length ?r < 80" by blast
  then show ?case
  proof cases
    case app
    with Cons.prems b have "reply_loop reps (acc @ [?r]) (tr @ [Log DEBUG ''Appending reply: %s'' [Str ?r]]) = (Inr sc, tr')"
      by (simp add: Let_def)
    from Cons.IH [OF this] obtain bs where "map body reps = map Inr bs" "sc = (acc @ [?r]) @ filter accepted (map cleaned bs)"
      by blast
    with b app show ?thesis by (intro exI [of _ "b # bs"]) simp
  next
    case rem
    with Cons.prems b have "reply_loop reps acc tr = (Inr sc, tr')"
      by (simp add: Let_def)
    from Cons.IH [OF this] obtain bs where "map body reps = map Inr bs" "sc = acc @ filter accepted (map cleaned bs)"
      by blast
    with b rem show ?thesis by (intro exI [of _ "b # bs"]) simp
  next
    case long
    with Cons.prems b have "reply_loop reps acc (tr @ [Log DEBUG ''Reply is too long'' []]) = (Inr sc, tr')"
      by (simp add: Let_def)
    from Cons.IH [OF this] obtain bs where "map body reps = map Inr bs" "sc = acc @ filter accepted (map cleaned bs)"
      by blast
    with b long show ?thesis by (intro exI [of _ "b # bs"]) simp
  qed
qed

lemma reply_loop_trace:
  "\<exists>ext. snd (reply_loop reps acc tr) = tr @ ext \<and> trained ext = [] \<and> sleeps ext = []"
proof (induction reps arbitrary: acc tr)
  case Nil
  then show ?case by simp
next
  case (Cons rep reps)
  show ?case
  proof (cases "body rep")
    case (Inl e)
    then show ?thesis by simp
  next
    case (Inr b)
    let ?r = "cleaned b"
    consider (app) "length ?r < 80" "?r \<noteq> ''[removed]''"
      | (rem) "length ?r < 80" "?r = ''[removed]''"
      | (long) "\<not> length ?r < 80" by blast
    then show ?thesis
    proof cases
      case app
      from Cons.IH [of "acc @ [?r]" "tr @ [Log DEBUG ''Appending reply: %s'' [Str ?r]]"]
      obtain ext where "snd (reply_loop reps (acc @ [?r]) (tr @ [Log DEBUG ''Appending reply: %s'' [Str ?r]])) = (tr @ [Log DEBUG ''Appending reply: %s'' [Str ?r]]) @ ext" "trained ext = []" "sleeps ext = []"
        by blast
      with Inr app show ?thesis
        by (intro exI [of _ "Log DEBUG ''Appending reply: %s'' [Str ?r] # ext"]) (simp add: Let_def)
    next
      case rem
      with Inr Cons.IH [of acc tr] show ?thesis by (simp add: Let_def)
    next
      case long
      from Cons.IH [of acc "tr @ [Log DEBUG ''Reply is too long'' []]"]
      obtain ext where "snd (reply_loop reps acc (tr @ [Log DEBUG ''Reply is too long'' []])) = (tr @ [Log DEBUG ''Reply is too long'' []]) @ ext" "trained ext = []" "sleeps ext = []"
        by blast
      with Inr long show ?thesis
        by (intro exI [of _ "Log DEBUG ''Reply is too long'' [] # ext"]) (simp add: Let_def)
    qed
  qed
qed


lemma reply_loop_raises:
  "bodies reps = None \<Longrightarrow> \<exists>e. fst (reply_loop reps acc tr) = Inl e"
proof (induction reps arbitrary: acc tr)
  case Nil
  then show ?case by simp
next
  case (Cons rep reps)
  show ?case
  proof (cases "body rep")
    case (Inl e)
    then show ?thesis by simp
  next
    case (Inr b)
    with Cons.prems have "bodies reps = None"
      by (simp split: option.splits)
    from Cons.IH [OF this] Inr show ?thesis
      by (simp add: Let_def)
  qed
qed

lemma comment_body_cases:
  "\<exists>ext. snd (comment_body c tr) = tr @ ext \<and> sleeps ext = [slp] \<and>
     ((\<exists>e. fst (comment_body c tr) = Inl e) \<and> trained ext = [] \<or>
      fst (comment_body c tr) = Inr () \<and>
      (\<exists>b bs. body c = Inr b \<and> bodies (replies c) = Some bs \<and>
         trained ext =
           (if 5 \<le> length (b # filter accepted (map cleaned bs))
            then [b # filter accepted (map cleaned bs)] else [])))"
proof (cases "body c")
  case (Inl e)
  then show ?thesis
    by (intro exI [of _ "[Sleep slp]"]) (simp add: comment_body_def)
next
  case (Inr b)
  obtain res tr2 where rl: "reply_loop (replies c) [b] (tr @ [Sleep slp]) = (res, tr2)"
    by (cases "reply_loop (replies c) [b] (tr @ [Sleep slp])") blast
  from reply_loop_trace [of "replies c" "[b]" "tr @ [Sleep slp]"] rl
  obtain ext where ext: "tr2 = (tr @ [Sleep slp]) @ ext" "trained ext = []" "sleeps ext = []"
    by auto
  show ?thesis
  proof (cases res)
    case (Inl e)
    with Inr rl ext show ?thesis
      by (intro exI [of _ "Sleep slp # ext"]) (simp add: comment_body_def)
  next
    case res: (Inr sc)
    from reply_loop_Inr_D [OF rl [unfolded res]]
    obtain bs where bs: "map body (replies c) = map Inr bs"
      "sc = [b] @ filter accepted (map cleaned bs)"
      by blast
    from bs(1) have bod: "bodies (replies c) = Some bs"
      by (simp add: bodies_Some_iff)
    show ?thesis
    proof (cases "length sc < 5")
      case True
      with Inr rl res ext bs(2) bod show ?thesis
        by (intro exI [of _ "Sleep slp # ext @ [Log DEBUG ''Skipping: %s'' [Lst sc]]"])
           (simp add: comment_body_def)
    next
      case False
      with Inr rl res ext bs(2) bod show ?thesis
        by (intro exI [of _ "Sleep slp # ext @
              [Log DEBUG ''Comment is %s statements long'' [Num (int (length sc))],
               Train sc, Log INFO ''Training: %s'' [Lst sc],
               Log INFO ''--------------------------------------------'' []]"])
           (simp add: comment_body_def)
    qed
  qed
qed


lemma comment_loop_append:
  "comment_loop (pre @ post) tr =
     (case comment_loop pre tr of
        (Inl e, tr1) \<Rightarrow> (Inl e, tr1)
      | (Inr u, tr1) \<Rightarrow> comment_loop post tr1)"
  by (induction pre arbitrary: tr) (auto split: prod.splits sum.splits)

lemma comment_loop_cases:
  "\<exists>ext. snd (comment_loop cl tr) = tr @ ext \<and>
     (\<forall>s\<in>set (trained ext). 5 \<le> length s \<and> (\<exists>c\<in>set cl. built_from c s)) \<and>
     length (trained ext) \<le> length cl \<and>
     (\<exists>k\<le>length cl. sleeps ext = replicate k slp \<and>
        (fst (comment_loop cl tr) = Inr () \<longrightarrow> k = length cl))"
proof (induction cl arbitrary: tr)
  case Nil
  then show ?case by simp
next
  case (Cons c cl)
  obtain r tr1 where cb: "comment_body c tr = (r, tr1)"
    by (cases "comment_body c tr") blast
  from comment_body_cases [of c tr] cb
  obtain ext1 where ext1: "tr1 = tr @ ext1" "sleeps ext1 = [slp]"
    "(\<exists>e. r = Inl e) \<and> trained ext1 = [] \<or>
      r = Inr () \<and>
      (\<exists>b bs. body c = Inr b \<and> bodies (replies c) = Some bs \<and>
         trained ext1 =
           (if 5 \<le> length (b # filter accepted (map cleaned bs))
            then [b # filter accepted (map cleaned bs)] else []))"
    by auto
  from ext1(3) show ?case
  proof
    assume "(\<exists>e. r = Inl e) \<and> trained ext1 = []"
    then obtain e where "r = Inl e" "trained ext1 = []"
      by blast
    with cb ext1(1,2) show ?thesis
      by (intro exI [of _ ext1]) (auto intro: exI [of _ "Suc 0"])
  next
    assume ok: "r = Inr () \<and>
      (\<exists>b bs. body c = Inr b \<and> bodies (replies c) = Some bs \<and>
         trained ext1 =
           (if 5 \<le> length (b # filter accepted (map cleaned bs))
            then [b # filter accepted (map cleaned bs)] else []))"
    then have r: "r = Inr ()" by blast
    from ok have one: "length (trained ext1) \<le> 1"
      by auto
    from ok have prov: "\<forall>s\<in>set (trained ext1). 5 \<le> length s \<and> built_from c s"
      by (auto split: if_splits)
    from Cons.IH [of tr1]
    obtain ext2 k where ext2: "snd (comment_loop cl tr1) = tr1 @ ext2"
      "\<forall>s\<in>set (trained ext2). 5 \<le> length s \<and> (\<exists>c\<in>set cl. built_from c s)"
      "length (trained ext2) \<le> length cl"
      "k \<le> length cl" "sleeps ext2 = replicate k slp"
      "fst (comment_loop cl tr1) = Inr () \<longrightarrow> k = length cl"
      by blast
    have step: "comment_loop (c # cl) tr = comment_loop cl tr1"
      using cb r by simp
    have "snd (comment_loop (c # cl) tr) = tr @ (ext1 @ ext2)"
      using step ext2(1) ext1(1) by simp
    moreover have "\<forall>s\<in>set (trained (ext1 @ ext2)).
        5 \<le> length s \<and> (\<exists>c'\<in>set (c # cl). built_from c' s)"
      using prov ext2(2) by auto
    moreover have "length (trained (ext1 @ ext2)) \<le> length (c # cl)"
      using one ext2(3) by simp
    moreover have "\<exists>k'\<le>length (c # cl). sleeps (ext1 @ ext2) = replicate k' slp \<and>
        (fst (comment_loop (c # cl) tr) = Inr () \<longrightarrow> k' = length (c # cl))"
      using ext1(2) ext2(4,5,6) step by (intro exI [of _ "Suc k"]) simp
    ultimately show ?thesis by blast
  qed
qed

lemma try_body_cases:
  "\<exists>ext. snd (try_body sm tr) = tr @ ext \<and>
     (\<forall>s\<in>set (trained ext). 5 \<le> length s \<and>
        (\<exists>cl. comments_list sm = Inr cl \<and> (\<exists>c\<in>set cl. built_from c s)))"
proof (cases "author sm")
  case None
  then show ?thesis by (simp add: try_body_def)
next
  case (Some a)
  show ?thesis
  proof (cases "link_karma a")
    case (Inl e)
    with Some show ?thesis by (simp add: try_body_def)
  next
    case (Inr k)
    show ?thesis
    proof (cases "comments_list sm")
      case (Inl e)
      with Some Inr show ?thesis by (simp add: try_body_def)
    next
      case cl: (Inr cl)
      let ?tr3 = "tr @ [Log DEBUG ''Title: %s'' [Str (title sm)],
                      Log DEBUG ''Score: %s'' [Num (score sm)],
                      Log DEBUG ''ID: %s'' [Str (ident sm)],
                      Log DEBUG ''URL: %s'' [Str (url sm)],
                      Log DEBUG ''Author: %s'' [Str (name a)],
                      Log DEBUG ''Link karma: %s'' [Num k]]"
      have tb: "try_body sm tr = comment_loop cl ?tr3"
        using Some Inr cl by (simp add: try_body_def)
      from comment_loop_cases [of cl ?tr3]
      obtain ext where ext: "snd (comment_loop cl ?tr3) = ?tr3 @ ext"
        "\<forall>s\<in>set (trained ext). 5 \<le> length s \<and> (\<exists>c\<in>set cl. built_from c s)"
        by blast
      show ?thesis
        using tb ext cl
        by (intro exI [of _ "[Log DEBUG ''Title: %s'' [Str (title sm)],
                      Log DEBUG ''Score: %s'' [Num (score sm)],
                      Log DEBUG ''ID: %s'' [Str (ident sm)],
                      Log DEBUG ''URL: %s'' [Str (url sm)],
                      Log DEBUG ''Author: %s'' [Str (name a)],
                      Log DEBUG ''Link karma: %s'' [Num k]] @ ext"]) simp
    qed
  qed
qed

lemma except_clauses_cases:
  "\<exists>ext. snd (except_clauses e tr) = tr @ ext \<and> trained ext = []"
  by (cases e) simp_all

lemma except_clauses_Inl:
  "fst (except_clauses e tr) = Inl e' \<Longrightarrow>
   e' = e \<and> (\<forall>m. e \<noteq> APIException m \<and> e \<noteq> ClientException m \<and>
                 e \<noteq> PRAWException m \<and> e \<noteq> AssertionError m)"
  by (cases e) (auto split: if_splits)

lemma submission_loop_append:
  "submission_loop (pre @ post) tr =
     (case submission_loop pre tr of
        (Inl e, tr1) \<Rightarrow> (Inl e, tr1)
      | (Inr u, tr1) \<Rightarrow> submission_loop post tr1)"
  by (induction pre arbitrary: tr) (auto split: prod.splits sum.splits)

lemma submission_loop_cases:
  "\<exists>ext. snd (submission_loop sms tr) = tr @ ext \<and>
     (\<forall>s\<in>set (trained ext). 5 \<le> length s \<and>
        (\<exists>sm\<in>set sms. \<exists>cl. comments_list sm = Inr cl \<and> (\<exists>c\<in>set cl. built_from c s)))"
proof (induction sms arbitrary: tr)
  case Nil
  then show ?case by simp
next
  case (Cons sm sms)
  obtain r tr1 where tb: "try_body sm tr = (r, tr1)"
    by (cases "try_body sm tr") blast
  from try_body_cases [of sm tr] tb
  obtain ext1 where ext1: "tr1 = tr @ ext1"
    "\<forall>s\<in>set (trained ext1). 5 \<le> length s \<and>
        (\<exists>cl. comments_list sm = Inr cl \<and> (\<exists>c\<in>set cl. built_from c s))"
    by auto
  obtain r2 tr2 where ec: "r2 = (case r of Inl e \<Rightarrow> fst (except_clauses e tr1) | Inr u \<Rightarrow> Inr ())"
    "tr2 = (case r of Inl e \<Rightarrow> snd (except_clauses e tr1) | Inr u \<Rightarrow> tr1)"
    by blast
  have "\<exists>ext. tr2 = tr1 @ ext \<and> trained ext = []"
    using ec(2) except_clauses_cases [of _ tr1] by (cases r) auto
  then obtain exth where exth: "tr2 = tr1 @ exth" "trained exth = []"
    by blast
  have step: "submission_loop (sm # sms) tr =
      (case r2 of Inl e \<Rightarrow> (Inl e, tr2) | Inr u \<Rightarrow> submission_loop sms tr2)"
    using tb ec by (auto split: sum.splits prod.splits)
  show ?case
  proof (cases r2)
    case (Inl e)
    with step ext1 exth show ?thesis
      by (intro exI [of _ "ext1 @ exth"]) auto
  next
    case (Inr u)
    from Cons.IH [of tr2]
    obtain ext2 where ext2: "snd (submission_loop sms tr2) = tr2 @ ext2"
      "\<forall>s\<in>set (trained ext2). 5 \<le> length s \<and>
        (\<exists>sm\<in>set sms. \<exists>cl. comments_list sm = Inr cl \<and> (\<exists>c\<in>set cl. built_from c s))"
      by blast
    have "snd (submission_loop (sm # sms) tr) = tr @ (ext1 @ exth @ ext2)"
      using step Inr ext2(1) ext1(1) exth(1) by simp
    moreover have "\<forall>s\<in>set (trained (ext1 @ exth @ ext2)). 5 \<le> length s \<and>
        (\<exists>sm'\<in>set (sm # sms). \<exists>cl. comments_list sm' = Inr cl \<and>
           (\<exists>c\<in>set cl. built_from c s))"
      using ext1(2) exth(2) ext2(2) by auto
    ultimately show ?thesis by blast
  qed
qed

lemma submission_loop_Inl:
  "fst (submission_loop sms tr) = Inl e \<Longrightarrow>
   (\<forall>m. e \<noteq> APIException m \<and> e \<noteq> ClientException m \<and>
        e \<noteq> PRAWException m \<and> e \<noteq> AssertionError m)"
proof (induction sms arbitrary: tr)
  case Nil
  then show ?case by simp
next
  case (Cons sm sms)
  obtain r tr1 where tb: "try_body sm tr = (r, tr1)"
    by (cases "try_body sm tr") blast
  show ?case
  proof (cases r)
    case (Inr u)
    with tb Cons.prems have "fst (submission_loop sms tr1) = Inl e"
      by simp
    then show ?thesis by (rule Cons.IH)
  next
    case (Inl e1)
    obtain r2 tr2 where ec: "except_clauses e1 tr1 = (r2, tr2)"
      by (cases "except_clauses e1 tr1") blast
    show ?thesis
    proof (cases r2)
      case r2: (Inl e2)
      with tb Inl ec Cons.prems have "e2 = e"
        by simp
      with except_clauses_Inl [of e1 tr1 e2] ec r2 show ?thesis
        by simp
    next
      case (Inr u)
      with tb Inl ec Cons.prems have "fst (submission_loop sms tr2) = Inl e"
        by simp
      then show ?thesis by (rule Cons.IH)
    qed
  qed
qed

lemma comment_body_ok:
  assumes "body c = Inr b" and "bodies (replies c) = Some bs"
  shows "fst (comment_body c tr) = Inr () \<and>
         trained (snd (comment_body c tr)) =
           trained tr @ (if 5 \<le> length (b # filter accepted (map cleaned bs))
                         then [b # filter accepted (map cleaned bs)] else [])"
proof -
  from comment_body_cases [of c tr]
  obtain ext where ext: "snd (comment_body c tr) = tr @ ext"
    "(\<exists>e. fst (comment_body c tr) = Inl e) \<and> trained ext = [] \<or>
      fst (comment_body c tr) = Inr () \<and>
      (\<exists>b bs. body c = Inr b \<and> bodies (replies c) = Some bs \<and>
         trained ext =
           (if 5 \<le> length (b # filter accepted (map cleaned bs))
            then [b # filter accepted (map cleaned bs)] else []))"
    by blast
  from assms(2) have "map body (replies c) = map Inr bs"
    by (simp add: bodies_Some_iff)
  then have "fst (reply_loop (replies c) [b] (tr @ [Sleep slp])) =
      Inr ([b] @ filter accepted (map cleaned bs))"
    by (rule reply_loop_fst)
  then have "\<exists>u. fst (comment_body c tr) = Inr u"
    using assms(1)
    by (cases "reply_loop (replies c) [b] (tr @ [Sleep slp])")
       (simp add: comment_body_def)
  with ext(2) assms have "fst (comment_body c tr) = Inr () \<and>
      trained ext = (if 5 \<le> length (b # filter accepted (map cleaned bs))
            then [b # filter accepted (map cleaned bs)] else [])"
    by auto
  with ext(1) show ?thesis by simp
qed

subsection \<open>The reply filter\<close>

text \<open>
  Claim C1, as the code has it. The replies of a comment are cleaned and then appended, in
  order, exactly when the cleaned text is shorter than 80 characters and is not
  \<open>[removed]\<close>: the loop returns the sequence it was given followed by the cleaned
  replies that pass this test. In every sequence handed to \<open>bot.train\<close> during a run,
  every element after the first is shorter than 80 characters and differs from
  \<open>[removed]\<close>. The first element is not covered by this.
\<close>

theorem reply_kept_iff_short_and_not_removed:
  "(bodies reps = Some bs \<longrightarrow>
      fst (reply_loop reps acc tr) = Inr (acc @ filter accepted (map cleaned bs))) \<and>
   (\<forall>s\<in>set (trained (snd (submission_loop sms []))).
      \<forall>r\<in>set (tl s). length r < 80 \<and> r \<noteq> ''[removed]'')"
proof
  show "bodies reps = Some bs \<longrightarrow>
      fst (reply_loop reps acc tr) = Inr (acc @ filter accepted (map cleaned bs))"
    by (simp add: bodies_Some_iff reply_loop_fst)
next
  from submission_loop_cases [of sms "[]"]
  obtain ext where ext: "snd (submission_loop sms []) = [] @ ext"
    "\<forall>s\<in>set (trained ext). 5 \<le> length s \<and>
        (\<exists>sm\<in>set sms. \<exists>cl. comments_list sm = Inr cl \<and> (\<exists>c\<in>set cl. built_from c s))"
    by blast
  show "\<forall>s\<in>set (trained (snd (submission_loop sms []))).
      \<forall>r\<in>set (tl s). length r < 80 \<and> r \<noteq> ''[removed]''"
  proof (intro ballI)
    fix s r
    assume "s \<in> set (trained (snd (submission_loop sms [])))" and r: "r \<in> set (tl s)"
    with ext obtain b bs where "s = b # filter accepted (map cleaned bs)"
      by auto
    with r show "length r < 80 \<and> r \<noteq> ''[removed]''"
      by auto
  qed
qed

theorem reply_kept_iff_short_and_not_removed_witness:
  "bodies (map leaf [''hello there'', ''[removed]'', replicate 90 CHR ''x'', ''/r/aww^'']) =
     Some [''hello there'', ''[removed]'', replicate 90 CHR ''x'', ''/r/aww^''] \<and>
   fst (reply_loop (map leaf [''hello there'', ''[removed]'', replicate 90 CHR ''x'', ''/r/aww^''])
          [''hi''] []) = Inr [''hi'', ''hello there'', ''aww''] \<and>
   trained (snd (submission_loop
      [thread_of (Inr (chain ''hi'' [''a'', ''[removed]'', ''b'', ''c'', ''d'']))] [])) =
     [[''hi'', ''a'', ''b'', ''c'', ''d'']]"
  using reply_kept_iff_short_and_not_removed
    [of "map leaf [''hello there'', ''[removed]'', replicate 90 CHR ''x'', ''/r/aww^'']"
        "[''hello there'', ''[removed]'', replicate 90 CHR ''x'', ''/r/aww^'']"
        "[''hi'']" "[]"
        "[thread_of (Inr (chain ''hi'' [''a'', ''[removed]'', ''b'', ''c'', ''d'']))]"]
  by (simp add: example_defs eval_defs)

text \<open>
  Claim C1 says that a reply equal to the rejected marker never appears in any emitted
  sequence. The flattened list of a thread holds every reply as a comment of its own, so
  a reply \<open>[removed]\<close> with four short replies is dropped from its parent's sequence
  and is the first element of its own, which is trained on.
\<close>

theorem dropped_reply_heads_own_sequence:
  "removed_reply \<in> set (replies removed_parent) \<and>
   body removed_reply = Inr ''[removed]'' \<and>
   cleaned ''[removed]'' = ''[removed]'' \<and>
   [''[removed]'', ''a'', ''b'', ''c'', ''d''] \<in>
     set (trained (snd (submission_loop
       [thread_of (Inr (removed_parent # removed_reply # map leaf [''a'', ''b'', ''c'', ''d'']))]
       [])))"
  by (simp add: example_defs eval_defs removed_reply_def removed_parent_def)

subsection \<open>The minimum length\<close>



subsection \<open>The shape of what is trained on\<close>

text \<open>
  Claim C8. Every sequence handed to \<open>bot.train\<close> during a run has at least 5
  elements and comes from a comment of the flattened list of one of the threads: its first
  element is that comment's body, and the elements after it are the cleaned bodies of that
  comment's direct replies that pass the filter, in the order of the replies. One comment
  yields at most one sequence, so a thread yields at most as many sequences as its
  flattened list has comments.
\<close>

theorem emitted_sequence_shape:
  "(\<forall>s\<in>set (trained (snd (submission_loop sms []))).
      5 \<le> length s \<and>
      (\<exists>sm\<in>set sms. \<exists>cl. comments_list sm = Inr cl \<and>
         (\<exists>c\<in>set cl. \<exists>b bs. body c = Inr b \<and> bodies (replies c) = Some bs \<and>
            s = b # filter accepted (map cleaned bs)))) \<and>
   length (trained (snd (comment_body c tr))) \<le> length (trained tr) + 1 \<and>
   length (trained (snd (comment_loop cl tr))) \<le> length (trained tr) + length cl"
proof (intro conjI)
  from submission_loop_cases [of sms "[]"]
  show "\<forall>s\<in>set (trained (snd (submission_loop sms []))).
      5 \<le> length s \<and>
      (\<exists>sm\<in>set sms. \<exists>cl. comments_list sm = Inr cl \<and>
         (\<exists>c\<in>set cl. \<exists>b bs. body c = Inr b \<and> bodies (replies c) = Some bs \<and>
            s = b # filter accepted (map cleaned bs)))"
    by auto
next
  from comment_body_cases [of c tr]
  show "length (trained (snd (comment_body c tr))) \<le> length (trained tr) + 1"
    by auto
next
  from comment_loop_cases [of cl tr]
  show "length (trained (snd (comment_loop cl tr))) \<le> length (trained tr) + length cl"
    by auto
qed

theorem emitted_sequence_shape_witness:
  "trained (snd (submission_loop
      [thread_of (Inr (chain ''hi'' [''/r/aww'', ''[removed]'', ''b'', replicate 80 CHR ''x'', ''c'', ''d'']))]
      [])) = [[''hi'', ''aww'', ''b'', ''c'', ''d'']] \<and>
   length (trained (snd (comment_body (Comment (Inr ''hi'') (map leaf [''a'', ''b'', ''c'', ''d'', ''e''])) [])))
     = 1 \<and>
   length (trained (snd (comment_loop (chain ''hi'' [''a'', ''b'', ''c'', ''d'']) []))) = 1"
  using emitted_sequence_shape
    [of "[thread_of (Inr (chain ''hi'' [''/r/aww'', ''[removed]'', ''b'', replicate 80 CHR ''x'', ''c'', ''d'']))]"
        "Comment (Inr ''hi'') (map leaf [''a'', ''b'', ''c'', ''d'', ''e''])" "[]"
        "chain ''hi'' [''a'', ''b'', ''c'', ''d'']"]
  by (simp add: example_defs eval_defs)

text \<open>
  Claim C9. Neither the length bound nor the test against \<open>[removed]\<close> is applied to
  the head comment: whatever its body is (for instance \<open>[removed]\<close>,
  \<open>[deleted]\<close> or a text of 80 characters), a comment with at least four accepted
  replies is trained on, with its body unchanged as the first element.
\<close>

theorem head_comment_not_filtered:
  assumes "body c = Inr b" and "bodies (replies c) = Some bs"
    and "4 \<le> length (filter accepted (map cleaned bs))"
  shows "fst (comment_body c tr) = Inr () \<and>
         trained (snd (comment_body c tr)) =
           trained tr @ [b # filter accepted (map cleaned bs)]"
  using comment_body_ok [OF assms(1,2), of tr] assms(3) by simp

theorem head_comment_not_filtered_witness:
  "body (Comment (Inr ''[removed]'') (map leaf [''a'', ''b'', ''c'', ''d''])) = Inr ''[removed]'' \<and>
   bodies (replies (Comment (Inr ''[removed]'') (map leaf [''a'', ''b'', ''c'', ''d'']))) =
     Some [''a'', ''b'', ''c'', ''d''] \<and>
   4 \<le> length (filter accepted (map cleaned [''a'', ''b'', ''c'', ''d''])) \<and>
   trained (snd (comment_body (Comment (Inr ''[removed]'') (map leaf [''a'', ''b'', ''c'', ''d''])) []))
     = [[''[removed]'', ''a'', ''b'', ''c'', ''d'']] \<and>
   trained (snd (comment_body (Comment (Inr ''[deleted]'') (map leaf [''a'', ''b'', ''c'', ''d''])) []))
     = [[''[deleted]'', ''a'', ''b'', ''c'', ''d'']] \<and>
   trained (snd (comment_body (Comment (Inr (replicate 80 CHR ''x'')) (map leaf [''a'', ''b'', ''c'', ''d''])) []))
     = [[replicate 80 CHR ''x'', ''a'', ''b'', ''c'', ''d'']]"
  using head_comment_not_filtered
    [of "Comment (Inr ''[removed]'') (map leaf [''a'', ''b'', ''c'', ''d''])" "''[removed]''"
        "[''a'', ''b'', ''c'', ''d'']" "[]"]
  by (simp add: example_defs eval_defs)

subsection \<open>Pauses\<close>






subsection \<open>Exceptions raised inside the \<open>try\<close>\<close>

text \<open>
  Claim C5. When the threads before \<open>sm\<close> did not end the run and processing
  \<open>sm\<close> raises an \<open>AssertionError\<close> whose text contains \<open>429\<close>, the
  harvester logs two warnings, sleeps 60 seconds, and goes on with the threads after
  \<open>sm\<close>, from the trace as it stood when the exception was raised; \<open>sm\<close> is not
  taken up again. Everything done for the earlier threads stays in the trace, and no
  \<open>AssertionError\<close> ends the run.
\<close>

theorem rate_limit_backs_off_and_continues:
  assumes "fst (submission_loop pre tr0) = Inr ()"
    and "fst (try_body sm (snd (submission_loop pre tr0))) = Inl (AssertionError m)"
    and "contains ''429'' m"
  shows "submission_loop (pre @ sm # post) tr0 =
           submission_loop post
             (snd (try_body sm (snd (submission_loop pre tr0))) @
              [Log WARNING ''Exceeding rate limits: %s'' [Exn (AssertionError m)],
               Log WARNING ''sleeping for 60 seconds'' [], Sleep 60]) \<and>
         (\<exists>ext. snd (submission_loop (pre @ sm # post) tr0) =
            snd (submission_loop pre tr0) @ ext) \<and>
         (\<forall>m'. fst (submission_loop (pre @ sm # post) tr0) \<noteq> Inl (AssertionError m'))"
proof -
  obtain tr where pre: "submission_loop pre tr0 = (Inr (), tr)"
    using assms(1) by (cases "submission_loop pre tr0") auto
  then have tr: "snd (submission_loop pre tr0) = tr"
    by simp
  obtain tr1 where tb: "try_body sm tr = (Inl (AssertionError m), tr1)"
    using assms(2) unfolding tr by (cases "try_body sm tr") auto
  then have tr1: "snd (try_body sm tr) = tr1"
    by simp
  let ?tr2 = "tr1 @ [Log WARNING ''Exceeding rate limits: %s'' [Exn (AssertionError m)],
               Log WARNING ''sleeping for 60 seconds'' [], Sleep 60]"
  have eq: "submission_loop (pre @ sm # post) tr0 = submission_loop post ?tr2"
    using pre tb assms(3) by (simp add: submission_loop_append)
  from try_body_cases [of sm tr] tr1 obtain ext1 where ext1: "tr1 = tr @ ext1"
    by auto
  from submission_loop_cases [of post ?tr2] obtain ext2
    where ext2: "snd (submission_loop post ?tr2) = ?tr2 @ ext2"
    by blast
  have "snd (submission_loop (pre @ sm # post) tr0) =
      tr @ (ext1 @ [Log WARNING ''Exceeding rate limits: %s'' [Exn (AssertionError m)],
               Log WARNING ''sleeping for 60 seconds'' [], Sleep 60] @ ext2)"
    using eq ext2 ext1 by simp
  then have "\<exists>ext. snd (submission_loop (pre @ sm # post) tr0) = tr @ ext"
    by blast
  moreover have "\<forall>m'. fst (submission_loop (pre @ sm # post) tr0) \<noteq> Inl (AssertionError m')"
    using submission_loop_Inl [of "pre @ sm # post" tr0] by blast
  ultimately show ?thesis
    using eq unfolding tr tr1 by blast
qed

theorem rate_limit_backs_off_and_continues_witness:
  "fst (submission_loop [thread_of (Inr (chain ''one'' [''a'', ''b'', ''c'', ''d'']))] []) = Inr () \<and>
   fst (try_body limited_thread
          (snd (submission_loop [thread_of (Inr (chain ''one'' [''a'', ''b'', ''c'', ''d'']))] []))) =
     Inl (AssertionError ''received 429 HTTP response'') \<and>
   contains ''429'' ''received 429 HTTP response'' \<and>
   fst (submission_loop
      [thread_of (Inr (chain ''one'' [''a'', ''b'', ''c'', ''d''])), limited_thread,
       thread_of (Inr (chain ''three'' [''a'', ''b'', ''c'', ''d'']))] []) = Inr () \<and>
   trained (snd (submission_loop
      [thread_of (Inr (chain ''one'' [''a'', ''b'', ''c'', ''d''])), limited_thread,
       thread_of (Inr (chain ''three'' [''a'', ''b'', ''c'', ''d'']))] [])) =
     [[''one'', ''a'', ''b'', ''c'', ''d''], [''two'', ''a'', ''b'', ''c'', ''d''],
      [''three'', ''a'', ''b'', ''c'', ''d'']] \<and>
   filter (\<lambda>d. d = 60) (sleeps (snd (submission_loop
      [thread_of (Inr (chain ''one'' [''a'', ''b'', ''c'', ''d''])), limited_thread,
       thread_of (Inr (chain ''three'' [''a'', ''b'', ''c'', ''d'']))] []))) = [60]"
  using rate_limit_backs_off_and_continues
    [of "[thread_of (Inr (chain ''one'' [''a'', ''b'', ''c'', ''d'']))]" "[]" limited_thread
        "''received 429 HTTP response''"
        "[thread_of (Inr (chain ''three'' [''a'', ''b'', ''c'', ''d'']))]"]
  by (simp add: example_defs eval_defs limited_thread_def)

text \<open>
  Claim C6, as the code has it. When processing \<open>sm\<close> raises an
  \<open>APIException\<close>, a \<open>ClientException\<close> or any other \<open>PRAWException\<close>, the
  matching clause logs it at level ERROR and the loop goes on with the threads after
  \<open>sm\<close>, which is not taken up again. The comments of the thread that follow the one
  that raised are never reached: the loop over the flattened list ends with that
  exception, in the trace as the raising comment left it. No exception of these three
  classes ends the run. An exception of another class that is not an
  \<open>AssertionError\<close> matches no clause: it leaves the loop over the threads at once,
  with nothing logged.
\<close>

theorem praw_errors_logged_and_thread_left:
  "(fst (try_body sm tr) = Inl (APIException m) \<longrightarrow>
      submission_loop (sm # sms) tr =
        submission_loop sms
          (snd (try_body sm tr) @ [Log ERROR ''APIException: %s'' [Exn (APIException m)]])) \<and>
   (fst (try_body sm tr) = Inl (ClientException m) \<longrightarrow>
      submission_loop (sm # sms) tr =
        submission_loop sms
          (snd (try_body sm tr) @ [Log ERROR ''ClientException: %s'' [Exn (ClientException m)]])) \<and>
   (fst (try_body sm tr) = Inl (PRAWException m) \<longrightarrow>
      submission_loop (sm # sms) tr =
        submission_loop sms
          (snd (try_body sm tr) @ [Log ERROR ''PRAWException: %s'' [Exn (PRAWException m)]])) \<and>
   (fst (comment_loop pre tr) = Inr () \<and>
    fst (comment_body c (snd (comment_loop pre tr))) = Inl e \<longrightarrow>
      comment_loop (pre @ c # post) tr =
        (Inl e, snd (comment_body c (snd (comment_loop pre tr))))) \<and>
   (\<forall>m'. fst (submission_loop sms tr) \<noteq> Inl (APIException m') \<and>
         fst (submission_loop sms tr) \<noteq> Inl (ClientException m') \<and>
         fst (submission_loop sms tr) \<noteq> Inl (PRAWException m')) \<and>
   (fst (try_body sm tr) = Inl (OtherException m) \<longrightarrow>
      submission_loop (sm # sms) tr = (Inl (OtherException m), snd (try_body sm tr)))"
proof (intro conjI)
  show "fst (try_body sm tr) = Inl (OtherException m) \<longrightarrow>
      submission_loop (sm # sms) tr = (Inl (OtherException m), snd (try_body sm tr))"
    by (cases "try_body sm tr") simp
  show "fst (try_body sm tr) = Inl (APIException m) \<longrightarrow>
      submission_loop (sm # sms) tr =
        submission_loop sms
          (snd (try_body sm tr) @ [Log ERROR ''APIException: %s'' [Exn (APIException m)]])"
    by (cases "try_body sm tr") simp
  show "fst (try_body sm tr) = Inl (ClientException m) \<longrightarrow>
      submission_loop (sm # sms) tr =
        submission_loop sms
          (snd (try_body sm tr) @ [Log ERROR ''ClientException: %s'' [Exn (ClientException m)]])"
    by (cases "try_body sm tr") simp
  show "fst (try_body sm tr) = Inl (PRAWException m) \<longrightarrow>
      submission_loop (sm # sms) tr =
        submission_loop sms
          (snd (try_body sm tr) @ [Log ERROR ''PRAWException: %s'' [Exn (PRAWException m)]])"
    by (cases "try_body sm tr") simp
  show "fst (comment_loop pre tr) = Inr () \<and>
    fst (comment_body c (snd (comment_loop pre tr))) = Inl e \<longrightarrow>
      comment_loop (pre @ c # post) tr =
        (Inl e, snd (comment_body c (snd (comment_loop pre tr))))"
  proof
    assume a: "fst (comment_loop pre tr) = Inr () \<and>
      fst (comment_body c (snd (comment_loop pre tr))) = Inl e"
    obtain tr1 where pre: "comment_loop pre tr = (Inr (), tr1)"
      using a by (cases "comment_loop pre tr") auto
    obtain tr2 where cb: "comment_body c tr1 = (Inl e, tr2)"
      using a pre by (cases "comment_body c tr1") auto
    show "comment_loop (pre @ c # post) tr =
        (Inl e, snd (comment_body c (snd (comment_loop pre tr))))"
      using pre cb by (simp add: comment_loop_append)
  qed
  show "\<forall>m'. fst (submission_loop sms tr) \<noteq> Inl (APIException m') \<and>
         fst (submission_loop sms tr) \<noteq> Inl (ClientException m') \<and>
         fst (submission_loop sms tr) \<noteq> Inl (PRAWException m')"
    using submission_loop_Inl [of sms tr] by blast
qed

theorem praw_errors_logged_and_thread_left_witness:
  "fst (try_body (failing_thread (APIException ''api'')) []) = Inl (APIException ''api'') \<and>
   fst (try_body (failing_thread (ClientException ''client'')) []) = Inl (ClientException ''client'') \<and>
   fst (try_body (failing_thread (PRAWException ''praw'')) []) = Inl (PRAWException ''praw'') \<and>
   fst (try_body (failing_thread (OtherException ''other'')) []) = Inl (OtherException ''other'') \<and>
   fst (comment_loop (chain ''two'' [''a'', ''b'', ''c'', ''d'']) []) = Inr () \<and>
   fst (comment_body (Comment (Inl (APIException ''api'')) [])
          (snd (comment_loop (chain ''two'' [''a'', ''b'', ''c'', ''d'']) []))) =
     Inl (APIException ''api'') \<and>
   fst (submission_loop
      [failing_thread (APIException ''api''),
       thread_of (Inr (chain ''three'' [''a'', ''b'', ''c'', ''d'']))] []) = Inr () \<and>
   trained (snd (submission_loop
      [failing_thread (APIException ''api''),
       thread_of (Inr (chain ''three'' [''a'', ''b'', ''c'', ''d'']))] [])) =
     [[''two'', ''a'', ''b'', ''c'', ''d''], [''three'', ''a'', ''b'', ''c'', ''d'']] \<and>
   filter (\<lambda>(l, f, as). l = ERROR) (logged (snd (submission_loop
      [failing_thread (APIException ''api''),
       thread_of (Inr (chain ''three'' [''a'', ''b'', ''c'', ''d'']))] []))) =
     [(ERROR, ''APIException: %s'', [Exn (APIException ''api'')])]"
  using praw_errors_logged_and_thread_left
    [of "failing_thread (APIException ''api'')" "[]" "''api''"
        "[thread_of (Inr (chain ''three'' [''a'', ''b'', ''c'', ''d'']))]"
        "chain ''two'' [''a'', ''b'', ''c'', ''d'']" "Comment (Inl (APIException ''api'')) []"
        "APIException ''api''" "chain ''late'' [''a'', ''b'', ''c'', ''d'']"]
  by (simp add: example_defs eval_defs failing_thread_def)

text \<open>
  Claim C6 says that authentication, client-side and platform errors never end the run.
  The clauses name three classes of \<open>praw.exceptions\<close> and \<open>AssertionError\<close>. An
  error that reaches the code as an exception of another class (here the HTTP layer under
  praw refusing the request with status 401) is raised in the same place, is caught by
  none of them and is not logged: the run ends with it, and the thread after it is never
  read.
\<close>

theorem uncaught_exception_ends_run:
  "fst (try_body (failing_thread (OtherException ''received 401 HTTP response'')) []) =
     Inl (OtherException ''received 401 HTTP response'') \<and>
   fst (submission_loop
      [failing_thread (OtherException ''received 401 HTTP response''),
       thread_of (Inr (chain ''three'' [''a'', ''b'', ''c'', ''d'']))] []) =
     Inl (OtherException ''received 401 HTTP response'') \<and>
   trained (snd (submission_loop
      [failing_thread (OtherException ''received 401 HTTP response''),
       thread_of (Inr (chain ''three'' [''a'', ''b'', ''c'', ''d'']))] [])) =
     [[''two'', ''a'', ''b'', ''c'', ''d'']] \<and>
   filter (\<lambda>(l, f, as). l = ERROR) (logged (snd (submission_loop
      [failing_thread (OtherException ''received 401 HTTP response''),
       thread_of (Inr (chain ''three'' [''a'', ''b'', ''c'', ''d'']))] []))) = []"
  by (simp add: example_defs eval_defs failing_thread_def)

text \<open>
  Claim C10. An \<open>AssertionError\<close> whose text does not contain \<open>429\<close> is caught
  by the last clause, which then does nothing: the trace is left as it stood at the raise
  (no log entry, no pause), and the loop goes on with the next thread. This holds in
  edward.py and in bot.py.
\<close>

theorem other_assertion_error_absorbed_silently:
  assumes "\<not> contains ''429'' m"
  shows "except_clauses (AssertionError m) tr = (Inr (), tr) \<and>
         (fst (try_body sm tr) = Inl (AssertionError m) \<longrightarrow>
            submission_loop (sm # sms) tr = submission_loop sms (snd (try_body sm tr))) \<and>
         (fst (bot_try_body sm (tr @ [Sleep 3])) = Inl (AssertionError m) \<longrightarrow>
            bot_submission_loop (sm # sms) tr =
              bot_submission_loop sms (snd (bot_try_body sm (tr @ [Sleep 3]))))"
proof (intro conjI)
  show "except_clauses (AssertionError m) tr = (Inr (), tr)"
    using assms by simp
  show "fst (try_body sm tr) = Inl (AssertionError m) \<longrightarrow>
            submission_loop (sm # sms) tr = submission_loop sms (snd (try_body sm tr))"
    using assms by (cases "try_body sm tr") simp
  show "fst (bot_try_body sm (tr @ [Sleep 3])) = Inl (AssertionError m) \<longrightarrow>
            bot_submission_loop (sm # sms) tr =
              bot_submission_loop sms (snd (bot_try_body sm (tr @ [Sleep 3])))"
    using assms by (cases "bot_try_body sm (tr @ [Sleep 3])") simp
qed

theorem other_assertion_error_absorbed_silently_witness:
  "\<not> contains ''429'' ''boom'' \<and>
   except_clauses (AssertionError ''boom'') [] = (Inr (), []) \<and>
   fst (try_body (failing_thread (AssertionError ''boom'')) []) = Inl (AssertionError ''boom'') \<and>
   fst (bot_try_body (failing_thread (AssertionError ''boom'')) [Sleep 3]) =
     Inl (AssertionError ''boom'') \<and>
   submission_loop [failing_thread (AssertionError ''boom'')] [] =
     (Inr (), snd (try_body (failing_thread (AssertionError ''boom'')) [])) \<and>
   bot_submission_loop [failing_thread (AssertionError ''boom'')] [] =
     (Inr (), snd (bot_try_body (failing_thread (AssertionError ''boom'')) [Sleep 3])) \<and>
   trained (snd (submission_loop
      [failing_thread (AssertionError ''boom''),
       thread_of (Inr (chain ''three'' [''a'', ''b'', ''c'', ''d'']))] [])) =
     [[''two'', ''a'', ''b'', ''c'', ''d''], [''three'', ''a'', ''b'', ''c'', ''d'']] \<and>
   filter (\<lambda>(l, f, as). l = WARNING \<or> l = ERROR) (logged (snd (submission_loop
      [failing_thread (AssertionError ''boom''),
       thread_of (Inr (chain ''three'' [''a'', ''b'', ''c'', ''d'']))] []))) = [] \<and>
   filter (\<lambda>d. d = 60) (sleeps (snd (submission_loop
      [failing_thread (AssertionError ''boom''),
       thread_of (Inr (chain ''three'' [''a'', ''b'', ''c'', ''d'']))] []))) = []"
  using other_assertion_error_absorbed_silently
    [of "''boom''" "[]" "failing_thread (AssertionError ''boom'')" "[]"]
  by (simp add: example_defs eval_defs failing_thread_def bot_try_body_def get_sub_comments_def)

subsection \<open>Deleted threads\<close>

text \<open>
  edward.py tests \<open>submission.author\<close> (line 363): a thread without author only
  leaves its four debug lines and the loop goes on.
\<close>

lemma edward_skips_deleted_thread:
  "author sm = None \<Longrightarrow>
   submission_loop (sm # sms) tr =
     submission_loop sms
       (tr @ [Log DEBUG ''Title: %s'' [Str (title sm)], Log DEBUG ''Score: %s'' [Num (score sm)],
              Log DEBUG ''ID: %s'' [Str (ident sm)], Log DEBUG ''URL: %s'' [Str (url sm)]])"
  by (simp add: try_body_def)

text \<open>
  Claim C3 says that a thread whose author is absent is skipped, with no sequence and no
  error. bot.py reads \<open>submission.author.link_karma\<close> without the test (line 281):
  on a listing that starts with such a thread it raises \<open>AttributeError\<close>, which no
  clause catches, so the run ends there and the thread after it, which bot.py trains on
  when it comes first, is never read. On the same input edward.py skips the thread and
  goes on.
\<close>

theorem bot_deleted_thread_ends_run:
  "author deleted_thread = None \<and>
   fst (bot_submission_loop
      [deleted_thread, thread_of (Inr (chain ''hi'' [''a'', ''b'', ''c'', ''d'']))] []) =
     Inl AttributeError \<and>
   trained (snd (bot_submission_loop
      [deleted_thread, thread_of (Inr (chain ''hi'' [''a'', ''b'', ''c'', ''d'']))] [])) = [] \<and>
   fst (bot_submission_loop [thread_of (Inr (chain ''hi'' [''a'', ''b'', ''c'', ''d'']))] []) =
     Inr () \<and>
   trained (snd (bot_submission_loop
      [thread_of (Inr (chain ''hi'' [''a'', ''b'', ''c'', ''d'']))] [])) =
     [[''hi'', ''a'', ''b'', ''c'', ''d''], [''a''], [''b''], [''c''], [''d'']] \<and>
   fst (submission_loop
      [deleted_thread, thread_of (Inr (chain ''hi'' [''a'', ''b'', ''c'', ''d'']))] []) =
     Inr () \<and>
   trained (snd (submission_loop
      [deleted_thread, thread_of (Inr (chain ''hi'' [''a'', ''b'', ''c'', ''d'']))] [])) =
     [[''hi'', ''a'', ''b'', ''c'', ''d'']]"
  by (simp add: example_defs eval_defs deleted_thread_def bot_try_body_def get_sub_comments_def)

subsection \<open>Credentials\<close>




end
